theory Spec2Isabelle
  imports Main "HOL-Library.Sublist"
begin

section \<open>The contact form endpoint\<close>

text \<open>
  The endpoint is the handler \<open>POST\<close> of the contact form API (the file headed
  "Contact Form API Endpoint"). It reads the client address, the clock, the form of the
  request and the webhook configuration, answers with a JSON response and keeps a
  process-wide \<open>Map\<close> from client address to a mutable object \<open>{count, resetTime}\<close>.

  The model gives, from the inputs of one call and the state it runs in, the response,
  the outside effects (console output and the outbound \<open>fetch\<close>) and the state it
  leaves. A call is in two parts, before and after its suspension at
  \<open>await request.formData()\<close>, and the calls of several requests run under a schedule
  that says when each arrives and when each is resumed.

  Strings are lists of 8-bit characters, read as the code points 0 to 255.
\<close>

subsection \<open>Data\<close>

text \<open>A \<open>File\<close> as far as the handler reads it: \<open>size\<close> and \<open>type\<close>.\<close>

record File =
  file_size :: nat
  file_type :: string

text \<open>What \<open>formData.get\<close> returns for a name that is present: a string or a file.\<close>

datatype entry = Text string | Blob File

text \<open>The objects held by the store: \<open>{ count: number; resetTime: number }\<close>.\<close>

record rate =
  count :: int
  resetTime :: int

text \<open>\<open>interface ContactFormData\<close>; \<open>None\<close> is the \<open>null\<close> of an absent form field.\<close>

record ContactFormData =
  service :: "entry option"
  timeline :: "entry option"
  company :: "entry option"
  projectSize :: "entry option"
  message :: "entry option"
  firstName :: "entry option"
  lastName :: "entry option"
  email :: "entry option"
  phone :: "entry option"
  contactMethod :: "entry option"
  attachment :: "entry option"
  website :: "entry option"

text \<open>
  The state of the process. \<open>rateLimitStore\<close> maps a key to the address of an object,
  \<open>heap\<close> gives the contents of the object at an address, and addresses from
  \<open>nextAddr\<close> on are not yet allocated. \<open>Map.get\<close> returns the stored object itself,
  so an assignment to a field of what it returned is an update of \<open>heap\<close>.
\<close>

record state =
  rateLimitStore :: "string \<rightharpoonup> nat"
  heap :: "nat \<Rightarrow> rate"
  nextAddr :: nat

datatype json = JBool bool | JString string

text \<open>\<open>new Response(JSON.stringify(obj), { status, headers })\<close>.\<close>

record response =
  status :: int
  json :: "(string \<times> json) list"
  headers :: "(string \<times> string) list"

text \<open>The object posted to the webhook.\<close>

record payload =
  subject :: string
  body :: string
  data :: ContactFormData
  timestamp :: string
  ip :: string

text \<open>What the awaited \<open>fetch\<close> does: it throws, or it resolves to a response with a status.\<close>

datatype fetch_outcome = NetworkError | HttpStatus int

text \<open>
  Effects outside the state: \<open>console.log\<close> with its arguments, \<open>console.error\<close> with
  its label and the status it prints (\<open>None\<close> when the second argument is an exception),
  and the call of \<open>fetch\<close> with its URL and body.
\<close>

datatype effect =
    ConsoleLog "string list"
  | ConsoleError string "int option"
  | Fetch string payload

text \<open>
  The inputs of one call: \<open>clientAddress\<close>, \<open>Date.now()\<close>, the result of
  \<open>request.formData()\<close> (\<open>None\<close> when it rejects; otherwise the entries in order),
  \<open>process.env.CONTACT_FORM_WEBHOOK_URL\<close>, the outcome of \<open>fetch\<close> should it be called,
  and the two renderings of the clock used in the notification.
\<close>

record request =
  clientAddress :: "string option"
  dateNow :: int
  formData :: "(string \<times> entry) list option"
  webhookUrl :: "string option"
  fetchOutcome :: fetch_outcome
  localeString :: string
  isoString :: string

subsection \<open>JavaScript values\<close>

text \<open>Truthiness: \<open>null\<close> and the empty string are falsy, every object is truthy.\<close>

fun truthy :: "entry option \<Rightarrow> bool" where
  "truthy None = False"
| "truthy (Some (Text t)) = (t \<noteq> [])"
| "truthy (Some (Blob f)) = True"

text \<open>String conversion, as a template literal and \<open>RegExp.test\<close> do it.\<close>

fun toString :: "entry option \<Rightarrow> string" where
  "toString None = ''null''"
| "toString (Some (Text t)) = t"
| "toString (Some (Blob f)) = ''[object File]''"

text \<open>\<open>x || d\<close> inside a template literal.\<close>

definition orElse :: "entry option \<Rightarrow> string \<Rightarrow> string" where
  "orElse x d = (if truthy x then toString x else d)"

text \<open>\<open>toLowerCase\<close> on the code points below 256.\<close>

definition lowerChar :: "char \<Rightarrow> char" where
  "lowerChar c =
     (let n = (of_char c :: nat)
      in if (65 \<le> n \<and> n \<le> 90) \<or> (192 \<le> n \<and> n \<le> 222 \<and> n \<noteq> 215)
         then char_of (n + 32) else c)"

definition toLowerCase :: "string \<Rightarrow> string" where
  "toLowerCase t = map lowerChar t"

text \<open>\<open>String.prototype.includes\<close>: the keyword occurs as a contiguous piece.\<close>

fun includes_str :: "string \<Rightarrow> string \<Rightarrow> bool" where
  "includes_str [] k = (k = [])"
| "includes_str (c # cs) k = (prefix k (c # cs) \<or> includes_str cs k)"

text \<open>The class \<open>\s\<close> of a regular expression, below 256.\<close>

definition isSpace :: "char \<Rightarrow> bool" where
  "isSpace c = (of_char c \<in> {9, 10, 11, 12, 13, 32, 160 :: nat})"

text \<open>The class \<open>[^\s@]\<close>.\<close>

definition plainChar :: "char \<Rightarrow> bool" where
  "plainChar c = (\<not> isSpace c \<and> c \<noteq> CHR ''@'')"

text \<open>
  \<open>/^[^\s@]+@[^\s@]+\.[^\s@]+$/.test(t)\<close>. The first group cannot contain \<open>@\<close>, so it
  is the longest prefix of plain characters; what follows the \<open>@\<close> is plain to the end
  and has a dot that is neither its first nor its last character.
\<close>

definition emailRegex_test :: "string \<Rightarrow> bool" where
  "emailRegex_test t =
     (let local = takeWhile plainChar t; rest = dropWhile plainChar t
      in local \<noteq> [] \<and>
         (case rest of
            [] \<Rightarrow> False
          | c # domain \<Rightarrow> c = CHR ''@'' \<and> list_all plainChar domain \<and>
                          CHR ''.'' \<in> set (butlast (tl domain))))"

subsection \<open>The handler\<close>

definition spamKeywords :: "string list" where
  "spamKeywords = [''casino'', ''viagra'', ''porn'', ''gambling'', ''crypto mining'']"

definition allowedTypes :: "string list" where
  "allowedTypes =
     [''application/pdf'',
      ''application/msword'',
      ''application/vnd.openxmlformats-officedocument.wordprocessingml.document'',
      ''application/vnd.ms-excel'',
      ''application/vnd.openxmlformats-officedocument.spreadsheetml.sheet'',
      ''application/zip'']"

definition jsonResponse :: "int \<Rightarrow> (string \<times> json) list \<Rightarrow> response" where
  "jsonResponse st obj =
     \<lparr>status = st, json = obj, headers = [(''Content-Type'', ''application/json'')]\<rparr>"

text \<open>\<open>clientAddress || 'unknown'\<close>.\<close>

definition clientIP_of :: "string option \<Rightarrow> string" where
  "clientIP_of a = (case a of None \<Rightarrow> ''unknown'' | Some t \<Rightarrow> if t = [] then ''unknown'' else t)"

text \<open>An object literal: a new object at the next free address.\<close>

definition newObject :: "rate \<Rightarrow> state \<Rightarrow> nat \<times> state" where
  "newObject r s =
     (nextAddr s, s\<lparr>heap := (heap s)(nextAddr s := r), nextAddr := Suc (nextAddr s)\<rparr>)"

text \<open>
  "Rate limiting check", up to the gate: \<open>rateLimit\<close> is the stored object when the key
  has one and a new object otherwise; an expired one is reset in place.
\<close>

definition rateLimitCheck :: "string \<Rightarrow> int \<Rightarrow> state \<Rightarrow> nat \<times> state" where
  "rateLimitCheck clientIP now s =
     (let (rateLimit, s1) =
            (case rateLimitStore s clientIP of
               Some a \<Rightarrow> (a, s)
             | None \<Rightarrow> newObject \<lparr>count = 0, resetTime = now + 3600000\<rparr> s)
      in if now > resetTime (heap s1 rateLimit)
         then (rateLimit,
               s1\<lparr>heap := (heap s1)(rateLimit := \<lparr>count = 0, resetTime = now + 3600000\<rparr>)\<rparr>)
         else (rateLimit, s1))"

text \<open>"Parse form data": \<open>formData.get\<close> gives the first entry of a name, or \<open>null\<close>.\<close>

definition parseForm :: "(string \<times> entry) list \<Rightarrow> ContactFormData" where
  "parseForm fd =
     \<lparr>service = map_of fd ''service'',
      timeline = map_of fd ''timeline'',
      company = map_of fd ''company'',
      projectSize = map_of fd ''projectSize'',
      message = map_of fd ''message'',
      firstName = map_of fd ''firstName'',
      lastName = map_of fd ''lastName'',
      email = map_of fd ''email'',
      phone = map_of fd ''phone'',
      contactMethod = map_of fd ''contactMethod'',
      attachment = map_of fd ''attachment'',
      website = map_of fd ''website''\<rparr>"

text \<open>"Spam keyword detection".\<close>

definition contentToCheck :: "ContactFormData \<Rightarrow> string" where
  "contentToCheck d =
     toLowerCase (toString (message d) @ '' '' @ orElse (company d) [] @ '' '' @
                  toString (firstName d) @ '' '' @ toString (lastName d))"

definition containsSpam :: "ContactFormData \<Rightarrow> bool" where
  "containsSpam d = list_ex (\<lambda>keyword. includes_str (contentToCheck d) keyword) spamKeywords"

text \<open>
  \<open>data.attachment && data.attachment.size > 0\<close>: a string has no \<open>size\<close>, and
  \<open>undefined > 0\<close> is false.
\<close>

fun hasAttachment :: "entry option \<Rightarrow> bool" where
  "hasAttachment (Some (Blob f)) = (file_size f > 0)"
| "hasAttachment _ = False"

text \<open>"File validation": the response of an early return, if there is one.\<close>

fun fileValidation :: "entry option \<Rightarrow> response option" where
  "fileValidation (Some (Blob f)) =
     (if file_size f > 0 then
        (if file_type f \<notin> set allowedTypes then
           Some (jsonResponse 400
             [(''success'', JBool False),
              (''error'', JString ''Invalid file type. Only PDF, DOC, DOCX, XLS, XLSX, ZIP allowed.'')])
         else if file_size f > 10 * 1024 * 1024 then
           Some (jsonResponse 400
             [(''success'', JBool False),
              (''error'', JString ''File too large. Maximum size is 10MB.'')])
         else None)
      else None)"
| "fileValidation _ = None"

text \<open>The checks between parsing and the update of the rate limit, in their order.\<close>

definition checks :: "string \<Rightarrow> ContactFormData \<Rightarrow> (response \<times> effect list) option" where
  "checks clientIP d =
     (if truthy (website d) then
        Some (jsonResponse 200 [(''success'', JBool True)],
              [ConsoleLog [''Spam detected via honeypot:'', clientIP]])
      else if \<not> truthy (service d) \<or> \<not> truthy (message d) \<or> \<not> truthy (firstName d) \<or>
              \<not> truthy (lastName d) \<or> \<not> truthy (email d) then
        Some (jsonResponse 400
                [(''success'', JBool False), (''error'', JString ''Missing required fields'')],
              [])
      else if \<not> emailRegex_test (toString (email d)) then
        Some (jsonResponse 400
                [(''success'', JBool False), (''error'', JString ''Invalid email address'')],
              [])
      else if containsSpam d then
        Some (jsonResponse 200 [(''success'', JBool True)],
              [ConsoleLog [''Spam detected via keywords:'', clientIP]])
      else (case fileValidation (attachment d) of
              Some r \<Rightarrow> Some (r, [])
            | None \<Rightarrow> None))"

text \<open>"Update rate limit": \<open>rateLimit.count++; rateLimitStore.set(clientIP, rateLimit)\<close>.\<close>

definition updateRateLimit :: "string \<Rightarrow> nat \<Rightarrow> state \<Rightarrow> state" where
  "updateRateLimit clientIP rateLimit s =
     (let s1 = s\<lparr>heap := (heap s)(rateLimit :=
                  (heap s rateLimit)\<lparr>count := count (heap s rateLimit) + 1\<rparr>)\<rparr>
      in s1\<lparr>rateLimitStore := (rateLimitStore s1)(clientIP \<mapsto> rateLimit)\<rparr>)"

definition emailSubject :: "ContactFormData \<Rightarrow> string" where
  "emailSubject d = ''New Contact Form Submission - '' @ toString (service d)"

text \<open>The lines of a text joined by newlines.\<close>

fun joinLines :: "string list \<Rightarrow> string" where
  "joinLines [] = []"
| "joinLines [l] = l"
| "joinLines (l # ls) = l @ [CHR 0x0A] @ joinLines ls"

text \<open>The notification text, after \<open>trim()\<close>.\<close>

definition emailBody :: "request \<Rightarrow> string \<Rightarrow> ContactFormData \<Rightarrow> string" where
  "emailBody req clientIP d = joinLines
     [''New contact form submission received:'',
      '''',
      ''CONTACT INFORMATION:'',
      ''- Name: '' @ toString (firstName d) @ '' '' @ toString (lastName d),
      ''- Email: '' @ toString (email d),
      ''- Phone: '' @ orElse (phone d) ''Not provided'',
      ''- Company: '' @ orElse (company d) ''Not provided'',
      ''- Preferred Contact: '' @ toString (contactMethod d),
      '''',
      ''PROJECT DETAILS:'',
      ''- Service: '' @ toString (service d),
      ''- Timeline: '' @ orElse (timeline d) ''Not specified'',
      ''- Project Size: '' @ orElse (projectSize d) ''Not specified'',
      ''- Message: '' @ toString (message d),
      '''',
      ''METADATA:'',
      ''- Submission Time: '' @ localeString req @ '' IST'',
      ''- IP Address: '' @ clientIP,
      ''- Has Attachment: '' @ (if hasAttachment (attachment d) then ''Yes'' else ''No''),
      '''',
      ''---'',
      ''This email was sent from the Ritesource & eExperts contact form.'']"

text \<open>\<open>webhookResponse.ok\<close>.\<close>

definition ok :: "int \<Rightarrow> bool" where
  "ok st = (200 \<le> st \<and> st \<le> 299)"

text \<open>
  The inner \<open>try\<close>: with a webhook URL one call of \<open>fetch\<close>, whose failure is only
  printed; without one the notification is printed. Nothing of it reaches the response.
\<close>

definition dispatch :: "request \<Rightarrow> string \<Rightarrow> ContactFormData \<Rightarrow> effect list" where
  "dispatch req clientIP d =
     (case webhookUrl req of
        Some (c # cs) \<Rightarrow>
          Fetch (c # cs)
            \<lparr>subject = emailSubject d, body = emailBody req clientIP d, data = d,
             timestamp = isoString req, ip = clientIP\<rparr> #
          (case fetchOutcome req of
             NetworkError \<Rightarrow> [ConsoleError ''Email sending failed:'' None]
           | HttpStatus st \<Rightarrow>
               if \<not> ok st then [ConsoleError ''Webhook failed:'' (Some st)] else [])
      | _ \<Rightarrow>
          [ConsoleLog [''=== NEW CONTACT FORM SUBMISSION ===''],
           ConsoleLog [emailBody req clientIP d],
           ConsoleLog [''====================================='']])"

text \<open>
  The handler is an \<open>async\<close> function. It suspends at \<open>await request.formData()\<close>,
  after the gate \<open>rateLimit.count >= 5\<close> and before anything of the form is read, and
  other calls can run while it waits. \<open>enter\<close> is the part of a call before that
  suspension: it either returns the response 429 or suspends, holding in \<open>rateLimit\<close>
  the object it read at the gate.
\<close>

definition enter :: "request \<Rightarrow> state \<Rightarrow> ((response \<times> effect list) + nat) \<times> state" where
  "enter req s =
     (let clientIP = clientIP_of (clientAddress req);
          now = dateNow req;
          (rateLimit, s1) = rateLimitCheck clientIP now s
      in if count (heap s1 rateLimit) \<ge> 5 then
           (Inl (jsonResponse 429
                   [(''success'', JBool False),
                    (''error'', JString ''Too many submissions. Please try again later.'')],
                 []), s1)
         else (Inr rateLimit, s1))"

text \<open>
  \<open>resume\<close> is the part of a call after that suspension, in the state it finds when it is
  resumed. The outer \<open>try\<close> catches the rejection of \<open>request.formData()\<close> and answers
  500; the other steps of the handler do not throw (the renderings of the clock are taken
  to succeed). "Update rate limit" writes to the object the call holds since its gate. The
  second suspension, at \<open>await fetch\<close>, comes after the last access to the store, so the
  rest of the call is kept in one piece.
\<close>

definition resume :: "request \<Rightarrow> nat \<Rightarrow> state \<Rightarrow> (response \<times> effect list) \<times> state" where
  "resume req rateLimit s =
     (let clientIP = clientIP_of (clientAddress req)
      in case formData req of
           None \<Rightarrow>
             ((jsonResponse 500
                 [(''success'', JBool False),
                  (''error'', JString
                     ''An unexpected error occurred. Please try again or contact us directly.'')],
               [ConsoleError ''Contact form error:'' None]), s)
         | Some fd \<Rightarrow>
             (let d = parseForm fd
              in case checks clientIP d of
                   Some early \<Rightarrow> (early, s)
                 | None \<Rightarrow>
                     ((jsonResponse 200
                         [(''success'', JBool True),
                          (''message'', JString
                             ''Your message has been sent successfully. We'll get back to you within 24 hours.'')],
                       dispatch req clientIP d),
                      updateRateLimit clientIP rateLimit s)))"

text \<open>A call that no other call interrupts: it is resumed in the state it suspended in.\<close>

definition POST :: "request \<Rightarrow> state \<Rightarrow> (response \<times> effect list) \<times> state" where
  "POST req s =
     (case enter req s of
        (Inl out, s1) \<Rightarrow> (out, s1)
      | (Inr rateLimit, s1) \<Rightarrow> resume req rateLimit s1)"

text \<open>
  The calls of several requests interleave at the suspension. The process is the state
  together with the suspended calls, each with its inputs and the object it holds. An
  event is the arrival of a request, whose call runs up to its suspension or to the
  response 429, or the resumption of the suspended call at a position of the list, which
  runs to its return. Resuming at a position where no call waits does nothing.
\<close>

datatype event = Arrive request | Resume nat

fun step ::
  "event \<Rightarrow> state \<times> (request \<times> nat) list \<Rightarrow>
     (response \<times> effect list) option \<times> (state \<times> (request \<times> nat) list)" where
  "step (Arrive req) (s, ws) =
     (case enter req s of
        (Inl out, s1) \<Rightarrow> (Some out, (s1, ws))
      | (Inr rateLimit, s1) \<Rightarrow> (None, (s1, ws @ [(req, rateLimit)])))"
| "step (Resume i) (s, ws) =
     (if i < length ws then
        (case resume (fst (ws ! i)) (snd (ws ! i)) s of
           (out, s1) \<Rightarrow> (Some out, (s1, take i ws @ drop (Suc i) ws)))
      else (None, (s, ws)))"

text \<open>A schedule of events, with what each event answers: a response or nothing yet.\<close>

fun run ::
  "event list \<Rightarrow> state \<times> (request \<times> nat) list \<Rightarrow>
     (response \<times> effect list) option list \<times> (state \<times> (request \<times> nat) list)" where
  "run [] c = ([], c)"
| "run (e # es) c =
     (let (out, c1) = step e c; (outs, c2) = run es c1 in (out # outs, c2))"

text \<open>The process starts with an empty \<open>Map\<close>, nothing allocated and no call waiting.\<close>

definition init :: state where
  "init = \<lparr>rateLimitStore = Map.empty, heap = (\<lambda>a. \<lparr>count = 0, resetTime = 0\<rparr>), nextAddr = 0\<rparr>"

inductive running :: "state \<times> (request \<times> nat) list \<Rightarrow> bool" where
  start: "running (init, [])"
| move: "running c \<Longrightarrow> running (snd (step e c))"

text \<open>The states of the store the process can be in, under every schedule.\<close>

definition reachable :: "state \<Rightarrow> bool" where
  "reachable s = (\<exists>ws. running (s, ws))"

text \<open>What the store holds for a key: the contents of the object stored under it.\<close>

definition record_of :: "state \<Rightarrow> string \<Rightarrow> rate option" where
  "record_of s k = map_option (heap s) (rateLimitStore s k)"

subsection \<open>Notions used by the properties\<close>

text \<open>
  The contents of \<open>rateLimit\<close> when the gate \<open>rateLimit.count >= 5\<close> is evaluated, from
  what the store holds for the key: the default object for a key without a record, the
  reset object for an expired record, the record itself otherwise.
\<close>

definition atGate :: "int \<Rightarrow> rate option \<Rightarrow> rate" where
  "atGate now ro =
     (case ro of
        None \<Rightarrow> \<lparr>count = 0, resetTime = now + 3600000\<rparr>
      | Some r \<Rightarrow> if now > resetTime r then \<lparr>count = 0, resetTime = now + 3600000\<rparr> else r)"

text \<open>The key has a record, the record has not expired and its count has reached 5.\<close>

definition rateLimited :: "request \<Rightarrow> state \<Rightarrow> bool" where
  "rateLimited req s =
     (case record_of s (clientIP_of (clientAddress req)) of
        None \<Rightarrow> False
      | Some r \<Rightarrow> dateNow req \<le> resetTime r \<and> count r \<ge> 5)"

text \<open>
  The shape the regular expression \<open>/^[^\s@]+@[^\s@]+\.[^\s@]+$/\<close> describes: three
  non-empty runs of plain characters, an \<open>@\<close> after the first and a dot after the second.
\<close>

definition emailPattern :: "string \<Rightarrow> bool" where
  "emailPattern t =
     (\<exists>a b c. t = a @ ''@'' @ b @ ''.'' @ c \<and> a \<noteq> [] \<and> b \<noteq> [] \<and> c \<noteq> [] \<and>
              list_all plainChar a \<and> list_all plainChar b \<and> list_all plainChar c)"

text \<open>The five required fields are truthy and the email has the shape of an address.\<close>

definition requiredPresent :: "ContactFormData \<Rightarrow> bool" where
  "requiredPresent d =
     (truthy (service d) \<and> truthy (message d) \<and> truthy (firstName d) \<and>
      truthy (lastName d) \<and> truthy (email d))"

text \<open>No attachment, an empty one, or one of an allowed type of at most 10 MiB.\<close>

definition attachmentOk :: "entry option \<Rightarrow> bool" where
  "attachmentOk a =
     (case a of
        Some (Blob f) \<Rightarrow>
          file_size f = 0 \<or> (file_type f \<in> set allowedTypes \<and> file_size f \<le> 10 * 1024 * 1024)
      | _ \<Rightarrow> True)"

text \<open>A valid submission that is not spam.\<close>

definition validSubmission :: "ContactFormData \<Rightarrow> bool" where
  "validSubmission d =
     (\<not> truthy (website d) \<and> requiredPresent d \<and> emailRegex_test (toString (email d)) \<and>
      \<not> containsSpam d \<and> attachmentOk (attachment d))"

text \<open>A request whose form parses to a valid submission that is not spam.\<close>

definition wellFormed :: "request \<Rightarrow> bool" where
  "wellFormed req =
     (case formData req of None \<Rightarrow> False | Some fd \<Rightarrow> validSubmission (parseForm fd))"

text \<open>The response of an accepted submission.\<close>

definition accepted :: response where
  "accepted = jsonResponse 200
     [(''success'', JBool True),
      (''message'', JString
         ''Your message has been sent successfully. We'll get back to you within 24 hours.'')]"

text \<open>The response to a rate-limited request.\<close>

definition tooMany :: response where
  "tooMany = jsonResponse 429
     [(''success'', JBool False),
      (''error'', JString ''Too many submissions. Please try again later.'')]"

text \<open>
  Every stored address is allocated, and no object is stored under two keys.
\<close>

definition separate :: "state \<Rightarrow> bool" where
  "separate s =
     ((\<forall>k a. rateLimitStore s k = Some a \<longrightarrow> a < nextAddr s) \<and>
      (\<forall>k k' a. rateLimitStore s k = Some a \<longrightarrow> rateLimitStore s k' = Some a \<longrightarrow> k = k'))"

text \<open>
  The same for the process with its suspended calls: the object a suspended call holds is
  allocated, it is stored under no key but the call's own, and calls that hold the same
  object have the same key.
\<close>

definition orderly :: "state \<times> (request \<times> nat) list \<Rightarrow> bool" where
  "orderly c =
     (separate (fst c) \<and>
      (\<forall>req a. (req, a) \<in> set (snd c) \<longrightarrow>
         a < nextAddr (fst c) \<and>
         (\<forall>k. rateLimitStore (fst c) k = Some a \<longrightarrow> k = clientIP_of (clientAddress req))) \<and>
      (\<forall>req a req'. (req, a) \<in> set (snd c) \<longrightarrow> (req', a) \<in> set (snd c) \<longrightarrow>
         clientIP_of (clientAddress req) = clientIP_of (clientAddress req')))"

subsection \<open>Sample requests\<close>

text \<open>An inquiry with every required field and nothing else.\<close>

definition inquiry :: "(string \<times> entry) list" where
  "inquiry =
     [(''service'', Text ''Data entry''),
      (''message'', Text ''Please call me about a data entry project.''),
      (''firstName'', Text ''Asha''),
      (''lastName'', Text ''Patel''),
      (''email'', Text ''asha@example.com'')]"

text \<open>A request with the given address, time and form; no webhook is configured.\<close>

definition visit :: "string option \<Rightarrow> int \<Rightarrow> (string \<times> entry) list \<Rightarrow> request" where
  "visit a t fd =
     \<lparr>clientAddress = a, dateNow = t, formData = Some fd, webhookUrl = None,
      fetchOutcome = HttpStatus 200, localeString = ''16/9/2025, 9:19:50 am'',
      isoString = ''2025-09-16T03:49:50.000Z''\<rparr>"

text \<open>The same inquiry with the honeypot field filled in, and with it left empty.\<close>

definition bait :: "(string \<times> entry) list" where
  "bait = inquiry @ [(''website'', Text ''http://spam.example'')]"

definition unbaited :: "(string \<times> entry) list" where
  "unbaited = inquiry @ [(''website'', Text [])]"

text \<open>An inquiry whose message names a keyword in capitals.\<close>

definition pitch :: "(string \<times> entry) list" where
  "pitch =
     [(''service'', Text ''Data entry''),
      (''message'', Text ''Buy VIAGRA now''),
      (''firstName'', Text ''Asha''),
      (''lastName'', Text ''Patel''),
      (''email'', Text ''asha@example.com'')]"

text \<open>An inquiry whose service is a single blank, and one whose service is empty.\<close>

definition blankService :: "(string \<times> entry) list" where
  "blankService =
     [(''service'', Text '' ''),
      (''message'', Text ''Please call me about a data entry project.''),
      (''firstName'', Text ''Asha''),
      (''lastName'', Text ''Patel''),
      (''email'', Text ''asha@example.com'')]"

definition noService :: "(string \<times> entry) list" where
  "noService =
     [(''service'', Text []),
      (''message'', Text ''Please call me about a data entry project.''),
      (''firstName'', Text ''Asha''),
      (''lastName'', Text ''Patel''),
      (''email'', Text ''asha@example.com'')]"

text \<open>The inquiry with a file attached.\<close>

definition attaching :: "File \<Rightarrow> (string \<times> entry) list" where
  "attaching f = inquiry @ [(''attachment'', Blob f)]"

text \<open>The first sample request with a webhook configured and a given outcome of the call.\<close>

definition hooked :: "fetch_outcome \<Rightarrow> request" where
  "hooked out =
     (visit (Some ''203.0.113.7'') 1000 inquiry)
       \<lparr>webhookUrl := Some ''https://hooks.example/contact'', fetchOutcome := out\<rparr>"

text \<open>
  Six inquiries of one client that all arrive before any of them is resumed.
\<close>

definition sixAtOnce :: "event list" where
  "sixAtOnce =
     [Arrive (visit (Some ''203.0.113.7'') 1000 inquiry),
      Arrive (visit (Some ''203.0.113.7'') 2000 inquiry),
      Arrive (visit (Some ''203.0.113.7'') 3000 inquiry),
      Arrive (visit (Some ''203.0.113.7'') 4000 inquiry),
      Arrive (visit (Some ''203.0.113.7'') 5000 inquiry),
      Arrive (visit (Some ''203.0.113.7'') 6000 inquiry),
      Resume 0, Resume 0, Resume 0, Resume 0, Resume 0, Resume 0]"

text \<open>
  Four inquiries of one client, each resumed before the next arrives, and then three
  that arrive before any of them is resumed.
\<close>

definition threeAtOnceAfterFour :: "event list" where
  "threeAtOnceAfterFour =
     [Arrive (visit (Some ''203.0.113.7'') 1000 inquiry), Resume 0,
      Arrive (visit (Some ''203.0.113.7'') 2000 inquiry), Resume 0,
      Arrive (visit (Some ''203.0.113.7'') 3000 inquiry), Resume 0,
      Arrive (visit (Some ''203.0.113.7'') 4000 inquiry), Resume 0,
      Arrive (visit (Some ''203.0.113.7'') 5000 inquiry),
      Arrive (visit (Some ''203.0.113.7'') 6000 inquiry),
      Arrive (visit (Some ''203.0.113.7'') 7000 inquiry),
      Resume 0, Resume 0, Resume 0]"

text \<open>
  Five inquiries without a client address that arrive before any of them is resumed, and
  a sixth that arrives after all five have returned.
\<close>

definition sixthAfterFiveAtOnce :: "event list" where
  "sixthAfterFiveAtOnce =
     [Arrive (visit None 1000 inquiry),
      Arrive (visit (Some []) 2000 inquiry),
      Arrive (visit None 3000 inquiry),
      Arrive (visit (Some []) 4000 inquiry),
      Arrive (visit None 5000 inquiry),
      Resume 0, Resume 0, Resume 0, Resume 0, Resume 0,
      Arrive (visit None 6000 inquiry), Resume 0]"

section \<open>Properties\<close>

subsection \<open>The email pattern\<close>

lemma plain_dot: "plainChar CHR ''.''"
  by (simp add: plainChar_def isSpace_def)

lemma not_plain_at: "\<not> plainChar CHR ''@''"
  by (simp add: plainChar_def)

lemma inner_dot_iff:
  "CHR ''.'' \<in> set (butlast (tl u)) \<longleftrightarrow> (\<exists>b c. u = b @ ''.'' @ c \<and> b \<noteq> [] \<and> c \<noteq> [])"
proof
  assume "CHR ''.'' \<in> set (butlast (tl u))"
  then obtain xs ys where mid: "butlast (tl u) = xs @ CHR ''.'' # ys"
    by (auto dest: split_list)
  then have ne: "tl u \<noteq> []" by auto
  then obtain x where u: "u = x # tl u" by (cases u) auto
  from ne have "tl u = butlast (tl u) @ [last (tl u)]" by simp
  with mid u have "u = (x # xs) @ ''.'' @ (ys @ [last (tl u)])"
    by (metis append_Cons append_Nil append_assoc)
  then show "\<exists>b c. u = b @ ''.'' @ c \<and> b \<noteq> [] \<and> c \<noteq> []"
    by blast
next
  assume "\<exists>b c. u = b @ ''.'' @ c \<and> b \<noteq> [] \<and> c \<noteq> []"
  then obtain b c where u: "u = b @ ''.'' @ c" and b: "b \<noteq> []" and c: "c \<noteq> []"
    by blast
  from b obtain x b' where "b = x # b'" by (cases b) auto
  with u have "tl u = b' @ CHR ''.'' # c" by simp
  with c have "butlast (tl u) = b' @ CHR ''.'' # butlast c"
    by (simp add: butlast_append)
  then show "CHR ''.'' \<in> set (butlast (tl u))" by simp
qed

text \<open>The test of the handler accepts the strings of the shape of the regular expression.\<close>

lemma emailRegex_test_iff: "emailRegex_test t \<longleftrightarrow> emailPattern t"
proof
  assume test: "emailRegex_test t"
  define a where "a = takeWhile plainChar t"
  from test obtain u where a: "a \<noteq> []" and rest: "dropWhile plainChar t = CHR ''@'' # u"
    and plain: "list_all plainChar u" and dot: "CHR ''.'' \<in> set (butlast (tl u))"
    by (auto simp add: emailRegex_test_def Let_def a_def split: list.splits)
  from dot obtain b c where u: "u = b @ ''.'' @ c" and bc: "b \<noteq> []" "c \<noteq> []"
    unfolding inner_dot_iff by blast
  have "t = a @ dropWhile plainChar t"
    by (simp add: a_def)
  with rest u have "t = a @ ''@'' @ b @ ''.'' @ c" by simp
  moreover have "list_all plainChar a"
    by (auto simp add: a_def list_all_iff dest: set_takeWhileD)
  moreover have "list_all plainChar b" "list_all plainChar c"
    using plain u by (simp_all add: list_all_iff)
  ultimately show "emailPattern t"
    using a bc unfolding emailPattern_def by blast
next
  assume "emailPattern t"
  then obtain a b c where t: "t = a @ ''@'' @ b @ ''.'' @ c"
    and ne: "a \<noteq> []" "b \<noteq> []" "c \<noteq> []"
    and pa: "list_all plainChar a" and pb: "list_all plainChar b" and pc: "list_all plainChar c"
    unfolding emailPattern_def by blast
  have tw: "takeWhile plainChar t = a"
    using pa not_plain_at by (simp add: t list_all_iff takeWhile_append2)
  have dw: "dropWhile plainChar t = CHR ''@'' # (b @ ''.'' @ c)"
    using pa not_plain_at by (simp add: t list_all_iff dropWhile_append2)
  have plain: "list_all plainChar (b @ ''.'' @ c)"
    using pb pc plain_dot by simp
  have dot: "CHR ''.'' \<in> set (butlast (tl (b @ ''.'' @ c)))"
    unfolding inner_dot_iff using ne by blast
  show "emailRegex_test t"
    using tw dw ne(1) plain dot by (simp add: emailRegex_test_def Let_def)
qed

subsection \<open>The steps of the handler\<close>

lemma rateLimitCheck_store:
  "rateLimitStore (snd (rateLimitCheck k now s)) = rateLimitStore s"
  by (simp add: rateLimitCheck_def newObject_def Let_def split: option.splits)

lemma rateLimitCheck_addr:
  "fst (rateLimitCheck k now s) = (case rateLimitStore s k of Some a \<Rightarrow> a | None \<Rightarrow> nextAddr s)"
  by (simp add: rateLimitCheck_def newObject_def Let_def split: option.splits)

lemma rateLimitCheck_heap:
  "heap (snd (rateLimitCheck k now s)) (fst (rateLimitCheck k now s)) = atGate now (record_of s k)"
  by (simp add: rateLimitCheck_def newObject_def Let_def atGate_def record_of_def split: option.splits)

lemma rateLimitCheck_heap_other:
  "b \<noteq> fst (rateLimitCheck k now s) \<Longrightarrow> heap (snd (rateLimitCheck k now s)) b = heap s b"
  by (auto simp add: rateLimitCheck_def newObject_def Let_def split: option.splits if_splits)

lemma rateLimitCheck_nextAddr:
  "nextAddr (snd (rateLimitCheck k now s)) =
     (case rateLimitStore s k of Some a \<Rightarrow> nextAddr s | None \<Rightarrow> Suc (nextAddr s))"
  by (simp add: rateLimitCheck_def newObject_def Let_def split: option.splits)

lemma rateLimited_atGate:
  "rateLimited req s \<longleftrightarrow> count (atGate (dateNow req) (record_of s (clientIP_of (clientAddress req)))) \<ge> 5"
  by (auto simp add: rateLimited_def atGate_def split: option.splits)

lemma fileValidation_None: "fileValidation a = None \<longleftrightarrow> attachmentOk a"
  by (cases a rule: fileValidation.cases) (auto simp add: attachmentOk_def)

lemma checks_None: "checks k d = None \<longleftrightarrow> validSubmission d"
  using fileValidation_None [of "attachment d"]
  by (cases "fileValidation (attachment d)")
     (auto simp add: checks_def validSubmission_def requiredPresent_def)

lemma POST_unfold:
  "POST req s =
     (let k = clientIP_of (clientAddress req);
          a = fst (rateLimitCheck k (dateNow req) s);
          s1 = snd (rateLimitCheck k (dateNow req) s)
      in if rateLimited req s then ((tooMany, []), s1)
         else case formData req of
                None \<Rightarrow> ((jsonResponse 500
                    [(''success'', JBool False),
                     (''error'', JString
                        ''An unexpected error occurred. Please try again or contact us directly.'')],
                  [ConsoleError ''Contact form error:'' None]), s1)
              | Some fd \<Rightarrow>
                  (case checks k (parseForm fd) of
                     Some early \<Rightarrow> (early, s1)
                   | None \<Rightarrow> ((accepted, dispatch req k (parseForm fd)), updateRateLimit k a s1)))"
  unfolding rateLimited_atGate
  by (simp add: POST_def enter_def resume_def Let_def split_beta rateLimitCheck_heap
        tooMany_def accepted_def split: option.splits)

lemma record_of_updateRateLimit:
  "record_of (updateRateLimit k a s) k = Some ((heap s a)\<lparr>count := count (heap s a) + 1\<rparr>)"
  by (simp add: record_of_def updateRateLimit_def Let_def)

lemma POST_limited:
  assumes "rateLimited req s"
  shows "POST req s = ((tooMany, []), s)"
proof -
  from assms obtain a where a: "rateLimitStore s (clientIP_of (clientAddress req)) = Some a"
    and live: "dateNow req \<le> resetTime (heap s a)"
    by (auto simp add: rateLimited_def record_of_def split: option.splits)
  then have "snd (rateLimitCheck (clientIP_of (clientAddress req)) (dateNow req) s) = s"
    by (simp add: rateLimitCheck_def)
  with assms show ?thesis by (simp add: POST_unfold Let_def)
qed

lemma POST_accepts:
  assumes "\<not> rateLimited req s" and "wellFormed req"
  shows "fst (fst (POST req s)) = accepted"
    and "record_of (snd (POST req s)) (clientIP_of (clientAddress req)) =
           Some ((atGate (dateNow req) (record_of s (clientIP_of (clientAddress req))))
                   \<lparr>count := count (atGate (dateNow req)
                                 (record_of s (clientIP_of (clientAddress req)))) + 1\<rparr>)"
proof -
  from assms(2) obtain fd where fd: "formData req = Some fd" "validSubmission (parseForm fd)"
    by (auto simp add: wellFormed_def split: option.splits)
  then have c: "checks (clientIP_of (clientAddress req)) (parseForm fd) = None"
    by (simp add: checks_None)
  show "fst (fst (POST req s)) = accepted"
    using assms(1) fd c by (simp add: POST_unfold Let_def)
  show "record_of (snd (POST req s)) (clientIP_of (clientAddress req)) =
           Some ((atGate (dateNow req) (record_of s (clientIP_of (clientAddress req))))
                   \<lparr>count := count (atGate (dateNow req)
                                 (record_of s (clientIP_of (clientAddress req)))) + 1\<rparr>)"
    using assms(1) fd c
    by (simp add: POST_unfold Let_def record_of_updateRateLimit rateLimitCheck_heap)
qed

text \<open>One accepted submission inside a running window.\<close>

lemma accept_in_window:
  assumes "record_of s k = Some \<lparr>count = c, resetTime = w\<rparr>" and "c < 5"
    and "dateNow req \<le> w" and "clientIP_of (clientAddress req) = k" and "wellFormed req"
  shows "fst (fst (POST req s)) = accepted \<and>
         record_of (snd (POST req s)) k = Some \<lparr>count = c + 1, resetTime = w\<rparr>"
proof -
  have g: "atGate (dateNow req) (record_of s k) = \<lparr>count = c, resetTime = w\<rparr>"
    using assms by (simp add: atGate_def)
  have nl: "\<not> rateLimited req s"
    using assms by (simp add: rateLimited_def)
  show ?thesis
    using POST_accepts [OF nl \<open>wellFormed req\<close>] assms(4) g by simp
qed

text \<open>One accepted submission that opens a window.\<close>

lemma accept_opens_window:
  assumes "record_of s k = None \<or> (\<exists>r. record_of s k = Some r \<and> resetTime r < dateNow req)"
    and "clientIP_of (clientAddress req) = k" and "wellFormed req"
  shows "fst (fst (POST req s)) = accepted \<and>
         record_of (snd (POST req s)) k = Some \<lparr>count = 1, resetTime = dateNow req + 3600000\<rparr>"
proof -
  have g: "atGate (dateNow req) (record_of s k) = \<lparr>count = 0, resetTime = dateNow req + 3600000\<rparr>"
    using assms(1) by (auto simp add: atGate_def)
  have nl: "\<not> rateLimited req s"
    using assms(1,2) by (auto simp add: rateLimited_def)
  show ?thesis
    using POST_accepts [OF nl \<open>wellFormed req\<close>] assms(2) g by simp
qed


subsection \<open>The state after a call\<close>

lemma POST_state:
  "snd (POST req s) =
     (let k = clientIP_of (clientAddress req);
          a = fst (rateLimitCheck k (dateNow req) s);
          s1 = snd (rateLimitCheck k (dateNow req) s)
      in if \<not> rateLimited req s \<and> wellFormed req then updateRateLimit k a s1 else s1)"
proof (cases "formData req")
  case None
  then show ?thesis by (simp add: POST_unfold Let_def wellFormed_def)
next
  case (Some fd)
  show ?thesis
    using Some checks_None [of "clientIP_of (clientAddress req)" "parseForm fd"]
    by (cases "checks (clientIP_of (clientAddress req)) (parseForm fd)")
       (auto simp add: POST_unfold Let_def wellFormed_def)
qed

lemma POST_response_accepted:
  "fst (fst (POST req s)) = accepted \<longleftrightarrow> \<not> rateLimited req s \<and> wellFormed req"
proof -
  have "checks k d = Some e \<Longrightarrow> fst e \<noteq> accepted" for k d e
    by (auto simp add: checks_def accepted_def jsonResponse_def
          split: if_splits option.splits elim!: fileValidation.elims)
  note early = this
  show ?thesis
  proof (cases "formData req")
    case None
    then show ?thesis
      by (simp add: POST_unfold Let_def wellFormed_def tooMany_def accepted_def jsonResponse_def)
  next
    case (Some fd)
    show ?thesis
      using Some checks_None [of "clientIP_of (clientAddress req)" "parseForm fd"]
        early [of "clientIP_of (clientAddress req)" "parseForm fd"]
      by (cases "checks (clientIP_of (clientAddress req)) (parseForm fd)")
         (auto simp add: POST_unfold Let_def wellFormed_def tooMany_def accepted_def
            jsonResponse_def)
  qed
qed

subsection \<open>The counts in the store\<close>

text \<open>
  A call that no other call interrupts keeps the stored counts at 5 or below. Calls that
  overlap do not; see the last subsection.
\<close>

lemma POST_keeps_bound:
  assumes "\<forall>k a. rateLimitStore s k = Some a \<longrightarrow> count (heap s a) \<le> 5"
  shows "\<forall>k a. rateLimitStore (snd (POST req s)) k = Some a \<longrightarrow> count (heap (snd (POST req s)) a) \<le> 5"
proof (intro allI impI)
  fix k' a'
  define k where "k = clientIP_of (clientAddress req)"
  define a where "a = fst (rateLimitCheck k (dateNow req) s)"
  define s1 where "s1 = snd (rateLimitCheck k (dateNow req) s)"
  assume st: "rateLimitStore (snd (POST req s)) k' = Some a'"
  have gate: "heap s1 a = atGate (dateNow req) (record_of s k)"
    by (simp add: s1_def a_def rateLimitCheck_heap)
  have old: "count (atGate (dateNow req) (record_of s k)) \<le> 5"
    using assms by (auto simp add: atGate_def record_of_def split: option.splits)
  have other: "b \<noteq> a \<Longrightarrow> heap s1 b = heap s b" for b
    by (simp add: s1_def a_def rateLimitCheck_heap_other)
  have store1: "rateLimitStore s1 = rateLimitStore s"
    by (simp add: s1_def rateLimitCheck_store)
  have addr: "rateLimitStore s k = Some b \<Longrightarrow> b = a" for b
    by (simp add: a_def rateLimitCheck_addr)
  show "count (heap (snd (POST req s)) a') \<le> 5"
  proof (cases "\<not> rateLimited req s \<and> wellFormed req")
    case True
    then have s': "snd (POST req s) = updateRateLimit k a s1"
      by (simp add: POST_state Let_def k_def a_def s1_def)
    from True have lt: "count (atGate (dateNow req) (record_of s k)) < 5"
      by (simp add: rateLimited_atGate k_def)
    show ?thesis
    proof (cases "a' = a")
      case True
      then show ?thesis using lt gate by (simp add: s' updateRateLimit_def Let_def)
    next
      case False
      with st have "rateLimitStore s k' = Some a'"
        by (auto simp add: s' updateRateLimit_def Let_def store1 split: if_splits)
      with assms have "count (heap s a') \<le> 5" by blast
      with False other show ?thesis by (simp add: s' updateRateLimit_def Let_def)
    qed
  next
    case False
    then have s': "snd (POST req s) = s1"
      by (auto simp add: POST_state Let_def k_def a_def s1_def)
    show ?thesis
    proof (cases "a' = a")
      case True
      then show ?thesis using old gate by (simp add: s')
    next
      case False
      from st have "rateLimitStore s k' = Some a'" by (simp add: s' store1)
      with assms have "count (heap s a') \<le> 5" by blast
      with False other show ?thesis by (simp add: s')
    qed
  qed
qed

subsection \<open>Objects and keys\<close>

lemma separate_init: "separate init"
  by (simp add: separate_def init_def)

lemma separate_POST:
  assumes "separate s"
  shows "separate (snd (POST req s))"
proof -
  define k where "k = clientIP_of (clientAddress req)"
  define a where "a = fst (rateLimitCheck k (dateNow req) s)"
  define s1 where "s1 = snd (rateLimitCheck k (dateNow req) s)"
  have store1: "rateLimitStore s1 = rateLimitStore s"
    by (simp add: s1_def rateLimitCheck_store)
  have next1: "nextAddr s \<le> nextAddr s1"
    by (simp add: s1_def rateLimitCheck_nextAddr split: option.splits)
  have sep1: "separate s1"
    using assms store1 next1 by (fastforce simp add: separate_def)
  have a_new: "a < nextAddr s1"
    using assms by (auto simp add: a_def s1_def rateLimitCheck_addr rateLimitCheck_nextAddr
        separate_def split: option.splits)
  have a_own: "rateLimitStore s k' = Some a \<Longrightarrow> k' = k" for k'
    using assms by (auto simp add: a_def rateLimitCheck_addr separate_def split: option.splits)
  have "separate (updateRateLimit k a s1)"
    using sep1 a_new a_own store1
    by (auto simp add: separate_def updateRateLimit_def Let_def)
  with sep1 show ?thesis
    by (simp add: POST_state Let_def k_def a_def s1_def)
qed

lemma enter_unfold:
  "enter req s =
     (if rateLimited req s then Inl (tooMany, [])
      else Inr (fst (rateLimitCheck (clientIP_of (clientAddress req)) (dateNow req) s)),
      snd (rateLimitCheck (clientIP_of (clientAddress req)) (dateNow req) s))"
  unfolding rateLimited_atGate
  by (simp add: enter_def Let_def split_beta rateLimitCheck_heap tooMany_def)

lemma resume_state:
  "snd (resume req a s) = s \<or>
   snd (resume req a s) = updateRateLimit (clientIP_of (clientAddress req)) a s"
  by (simp add: resume_def Let_def split: option.splits)

lemma orderly_init: "orderly (init, [])"
  by (simp add: orderly_def separate_init)

lemma orderlyI:
  assumes "separate s"
    and "\<And>r b. (r, b) \<in> set ws \<Longrightarrow> b < nextAddr s"
    and "\<And>r b k. (r, b) \<in> set ws \<Longrightarrow> rateLimitStore s k = Some b \<Longrightarrow>
            k = clientIP_of (clientAddress r)"
    and "\<And>r b r'. (r, b) \<in> set ws \<Longrightarrow> (r', b) \<in> set ws \<Longrightarrow>
            clientIP_of (clientAddress r) = clientIP_of (clientAddress r')"
  shows "orderly (s, ws)"
  unfolding orderly_def fst_conv snd_conv using assms by blast

lemma orderlyD:
  assumes "orderly (s, ws)"
  shows "separate s"
    and "\<And>r b. (r, b) \<in> set ws \<Longrightarrow> b < nextAddr s"
    and "\<And>r b k. (r, b) \<in> set ws \<Longrightarrow> rateLimitStore s k = Some b \<Longrightarrow>
            k = clientIP_of (clientAddress r)"
    and "\<And>r b r'. (r, b) \<in> set ws \<Longrightarrow> (r', b) \<in> set ws \<Longrightarrow>
            clientIP_of (clientAddress r) = clientIP_of (clientAddress r')"
  using assms unfolding orderly_def fst_conv snd_conv by blast+

lemma orderly_arrive:
  assumes "orderly (s, ws)"
  shows "orderly (snd (step (Arrive req) (s, ws)))"
proof -
  define k where "k = clientIP_of (clientAddress req)"
  define a where "a = fst (rateLimitCheck k (dateNow req) s)"
  define s1 where "s1 = snd (rateLimitCheck k (dateNow req) s)"
  note sep = orderlyD(1) [OF assms] and held = orderlyD(2) [OF assms]
    and own = orderlyD(3) [OF assms] and same = orderlyD(4) [OF assms]
  have store1: "rateLimitStore s1 = rateLimitStore s"
    by (simp add: s1_def rateLimitCheck_store)
  have next1: "nextAddr s \<le> nextAddr s1"
    by (simp add: s1_def rateLimitCheck_nextAddr split: option.splits)
  have sep1: "separate s1"
    using sep store1 next1 by (fastforce simp add: separate_def)
  have a_new: "a < nextAddr s1"
    using sep by (auto simp add: a_def s1_def rateLimitCheck_addr rateLimitCheck_nextAddr
        separate_def split: option.splits)
  have a_own: "rateLimitStore s k' = Some a \<Longrightarrow> k' = k" for k'
    using sep by (auto simp add: a_def rateLimitCheck_addr separate_def split: option.splits)
  have a_same: "(r, a) \<in> set ws \<Longrightarrow> clientIP_of (clientAddress r) = k" for r
  proof (cases "rateLimitStore s k")
    case None
    assume "(r, a) \<in> set ws"
    then have "a < nextAddr s" by (rule held)
    with None show ?thesis by (simp add: a_def rateLimitCheck_addr)
  next
    case (Some b)
    assume w: "(r, a) \<in> set ws"
    from Some have "rateLimitStore s k = Some a" by (simp add: a_def rateLimitCheck_addr)
    with own [OF w] show ?thesis by simp
  qed
  have old: "orderly (s1, ws)"
  proof (rule orderlyI)
    show "separate s1" by (rule sep1)
  next
    fix r b assume "(r, b) \<in> set ws"
    then have "b < nextAddr s" by (rule held)
    with next1 show "b < nextAddr s1" by simp
  next
    fix r b k' assume "(r, b) \<in> set ws" "rateLimitStore s1 k' = Some b"
    then show "k' = clientIP_of (clientAddress r)" using own store1 by simp
  next
    fix r b r' assume "(r, b) \<in> set ws" "(r', b) \<in> set ws"
    then show "clientIP_of (clientAddress r) = clientIP_of (clientAddress r')" by (rule same)
  qed
  have new: "orderly (s1, ws @ [(req, a)])"
  proof (rule orderlyI)
    show "separate s1" by (rule sep1)
  next
    fix r b assume "(r, b) \<in> set (ws @ [(req, a)])"
    then consider "(r, b) \<in> set ws" | "r = req" "b = a" by auto
    then show "b < nextAddr s1"
    proof cases
      case 1
      then have "b < nextAddr s" by (rule held)
      with next1 show ?thesis by simp
    next
      case 2
      with a_new show ?thesis by simp
    qed
  next
    fix r b k' assume m: "(r, b) \<in> set (ws @ [(req, a)])" and st: "rateLimitStore s1 k' = Some b"
    from m consider "(r, b) \<in> set ws" | "r = req" "b = a" by auto
    then show "k' = clientIP_of (clientAddress r)"
    proof cases
      case 1
      with st own store1 show ?thesis by simp
    next
      case 2
      with st a_own store1 show ?thesis by (simp add: k_def)
    qed
  next
    fix r b r' assume m: "(r, b) \<in> set (ws @ [(req, a)])" and m': "(r', b) \<in> set (ws @ [(req, a)])"
    from m consider "(r, b) \<in> set ws" | "r = req" "b = a" by auto
    then show "clientIP_of (clientAddress r) = clientIP_of (clientAddress r')"
    proof cases
      case 1
      from m' consider "(r', b) \<in> set ws" | "r' = req" "b = a" by auto
      then show ?thesis
      proof cases
        case 1
        with \<open>(r, b) \<in> set ws\<close> show ?thesis by (rule same)
      next
        case 2
        with \<open>(r, b) \<in> set ws\<close> a_same [of r] show ?thesis by (simp add: k_def)
      qed
    next
      case 2
      from m' consider "(r', b) \<in> set ws" | "r' = req" "b = a" by auto
      then show ?thesis
      proof cases
        case 1
        with 2 a_same [of r'] show ?thesis by (simp add: k_def)
      next
        case 2
        with \<open>r = req\<close> show ?thesis by simp
      qed
    qed
  qed
  show ?thesis
    using old new by (simp add: enter_unfold k_def a_def s1_def)
qed

lemma orderly_resume:
  assumes "orderly (s, ws)"
  shows "orderly (snd (step (Resume i) (s, ws)))"
proof (cases "i < length ws")
  case False
  with assms show ?thesis by simp
next
  case True
  define req where "req = fst (ws ! i)"
  define a where "a = snd (ws ! i)"
  define k where "k = clientIP_of (clientAddress req)"
  define ws' where "ws' = take i ws @ drop (Suc i) ws"
  from True have "ws ! i \<in> set ws" by simp
  then have mem: "(req, a) \<in> set ws"
    by (simp add: req_def a_def)
  have sub: "x \<in> set ws' \<Longrightarrow> x \<in> set ws" for x
    unfolding ws'_def by (auto dest: in_set_takeD in_set_dropD)
  note sep = orderlyD(1) [OF assms] and held = orderlyD(2) [OF assms]
    and own = orderlyD(3) [OF assms] and same = orderlyD(4) [OF assms]
  have keep: "orderly (s, ws')"
  proof (rule orderlyI)
    show "separate s" by (rule sep)
  next
    fix r b assume "(r, b) \<in> set ws'"
    then show "b < nextAddr s" by (intro held sub)
  next
    fix r b k' assume "(r, b) \<in> set ws'" "rateLimitStore s k' = Some b"
    then show "k' = clientIP_of (clientAddress r)" using own sub by blast
  next
    fix r b r' assume "(r, b) \<in> set ws'" "(r', b) \<in> set ws'"
    then show "clientIP_of (clientAddress r) = clientIP_of (clientAddress r')"
      using same sub by blast
  qed
  have st2: "rateLimitStore (updateRateLimit k a s) = (rateLimitStore s)(k \<mapsto> a)"
    and nx2: "nextAddr (updateRateLimit k a s) = nextAddr s"
    by (simp_all add: updateRateLimit_def Let_def)
  have a_own: "rateLimitStore s k' = Some a \<Longrightarrow> k' = k" for k'
    using own [OF mem] by (simp add: k_def)
  have sep2: "separate (updateRateLimit k a s)"
    unfolding separate_def st2 nx2
  proof (intro conjI allI impI)
    fix k' b assume "((rateLimitStore s)(k \<mapsto> a)) k' = Some b"
    then show "b < nextAddr s"
      using held [OF mem] sep by (auto simp add: separate_def split: if_splits)
  next
    fix k1 k2 b
    assume "((rateLimitStore s)(k \<mapsto> a)) k1 = Some b" "((rateLimitStore s)(k \<mapsto> a)) k2 = Some b"
    then show "k1 = k2"
      using a_own sep by (auto simp add: separate_def split: if_splits)
  qed
  have upd: "orderly (updateRateLimit k a s, ws')"
  proof (rule orderlyI)
    show "separate (updateRateLimit k a s)" by (rule sep2)
  next
    fix r b assume "(r, b) \<in> set ws'"
    then have "b < nextAddr s" by (intro held sub)
    then show "b < nextAddr (updateRateLimit k a s)" by (simp add: nx2)
  next
    fix r b k' assume w: "(r, b) \<in> set ws'"
      and st: "rateLimitStore (updateRateLimit k a s) k' = Some b"
    from w have w0: "(r, b) \<in> set ws" by (rule sub)
    show "k' = clientIP_of (clientAddress r)"
    proof (cases "k' = k")
      case True
      with st have "b = a" by (simp add: st2)
      with same [OF w0, of req] mem True show ?thesis by (simp add: k_def)
    next
      case False
      with st have "rateLimitStore s k' = Some b" by (simp add: st2)
      with own [OF w0] show ?thesis by blast
    qed
  next
    fix r b r' assume "(r, b) \<in> set ws'" "(r', b) \<in> set ws'"
    then show "clientIP_of (clientAddress r) = clientIP_of (clientAddress r')"
      using same sub by blast
  qed
  have "snd (step (Resume i) (s, ws)) = (snd (resume req a s), ws')"
    using True by (simp add: split_beta req_def a_def ws'_def)
  then show ?thesis
    using keep upd resume_state [of req a s] by (auto simp add: k_def)
qed

lemma orderly_step: "orderly c \<Longrightarrow> orderly (snd (step e c))"
  by (cases c; cases e) (simp_all only: orderly_arrive orderly_resume)

lemma running_orderly: "running c \<Longrightarrow> orderly c"
  by (induction rule: running.induct) (simp_all add: orderly_init orderly_step)

lemma reachable_separate: "reachable s \<Longrightarrow> separate s"
  unfolding reachable_def using orderlyD(1) running_orderly by blast

text \<open>A call that is not interrupted is two events of a schedule.\<close>

lemma running_POST:
  assumes "running (s, ws)"
  shows "running (snd (POST req s), ws)"
proof (cases "rateLimited req s")
  case True
  with running.move [OF assms, of "Arrive req"] show ?thesis
    by (simp add: POST_def enter_unfold)
next
  case False
  define a where "a = fst (rateLimitCheck (clientIP_of (clientAddress req)) (dateNow req) s)"
  define s1 where "s1 = snd (rateLimitCheck (clientIP_of (clientAddress req)) (dateNow req) s)"
  from False running.move [OF assms, of "Arrive req"]
  have "running (s1, ws @ [(req, a)])"
    by (simp add: enter_unfold a_def s1_def)
  from running.move [OF this, of "Resume (length ws)"]
  have "running (snd (resume req a s1), ws)"
    by (simp add: split_beta)
  with False show ?thesis
    by (simp add: POST_def enter_unfold a_def s1_def)
qed

lemma reachable_init: "reachable init"
  unfolding reachable_def using running.start by blast

lemma reachable_POST: "reachable s \<Longrightarrow> reachable (snd (POST req s))"
  unfolding reachable_def using running_POST by blast

lemma running_run: "running c \<Longrightarrow> running (snd (run es c))"
proof (induction es arbitrary: c)
  case Nil
  then show ?case by simp
next
  case (Cons e es)
  from running.move [OF Cons.prems, of e] have "running (snd (step e c))" .
  from Cons.IH [OF this] show ?case by (simp add: split_beta)
qed

lemma reachable_run: "reachable (fst (snd (run es (init, []))))"
proof -
  have "running (snd (run es (init, [])))"
    by (rule running_run [OF running.start])
  then have "running (fst (snd (run es (init, []))), snd (snd (run es (init, []))))"
    by simp
  then show ?thesis unfolding reachable_def by blast
qed

text \<open>A call leaves the records of the other keys as they are.\<close>

lemma POST_other_keys:
  assumes "separate s" and "k' \<noteq> clientIP_of (clientAddress req)"
  shows "record_of (snd (POST req s)) k' = record_of s k'"
proof -
  define k where "k = clientIP_of (clientAddress req)"
  define a where "a = fst (rateLimitCheck k (dateNow req) s)"
  define s1 where "s1 = snd (rateLimitCheck k (dateNow req) s)"
  have store1: "rateLimitStore s1 = rateLimitStore s"
    by (simp add: s1_def rateLimitCheck_store)
  have other: "b \<noteq> a \<Longrightarrow> heap s1 b = heap s b" for b
    by (simp add: s1_def a_def rateLimitCheck_heap_other)
  have apart: "rateLimitStore s k' = Some b \<Longrightarrow> b \<noteq> a" for b
    using assms by (auto simp add: a_def k_def rateLimitCheck_addr separate_def split: option.splits)
  have r1: "record_of s1 k' = record_of s k'"
    using other apart by (cases "rateLimitStore s k'") (simp_all add: record_of_def store1)
  have r2: "record_of (updateRateLimit k a s1) k' = record_of s1 k'"
    using assms(2) apart
    by (cases "rateLimitStore s k'") (simp_all add: record_of_def updateRateLimit_def Let_def k_def store1)
  show ?thesis
    using r1 r2 by (simp add: POST_state Let_def k_def a_def s1_def)
qed

text \<open>What a call that does not accept does to the record of its own key.\<close>

lemma POST_own_key_unaccepted:
  assumes "fst (fst (POST req s)) \<noteq> accepted"
  shows "record_of (snd (POST req s)) (clientIP_of (clientAddress req)) =
           (case record_of s (clientIP_of (clientAddress req)) of
              None \<Rightarrow> None
            | Some r \<Rightarrow> Some (atGate (dateNow req) (Some r)))"
    and "rateLimitStore (snd (POST req s)) = rateLimitStore s"
proof -
  define k where "k = clientIP_of (clientAddress req)"
  from assms have s': "snd (POST req s) = snd (rateLimitCheck k (dateNow req) s)"
    by (auto simp add: POST_response_accepted POST_state Let_def k_def)
  show "rateLimitStore (snd (POST req s)) = rateLimitStore s"
    by (simp add: s' rateLimitCheck_store)
  show "record_of (snd (POST req s)) (clientIP_of (clientAddress req)) =
           (case record_of s (clientIP_of (clientAddress req)) of
              None \<Rightarrow> None
            | Some r \<Rightarrow> Some (atGate (dateNow req) (Some r)))"
  proof (cases "rateLimitStore s k")
    case None
    then show ?thesis
      by (simp add: s' k_def [symmetric] record_of_def rateLimitCheck_store)
  next
    case (Some a)
    then have "fst (rateLimitCheck k (dateNow req) s) = a"
      by (simp add: rateLimitCheck_addr)
    with rateLimitCheck_heap [of k "dateNow req" s] Some show ?thesis
      by (simp add: s' k_def [symmetric] record_of_def rateLimitCheck_store)
  qed
qed

subsection \<open>What a rejected request does to the store\<close>

text \<open>
  Claim C9, as amended. A request that is not accepted (it is answered 429, answered as
  spam, rejected with 400 or fails with 500) adds no key to the store and leaves the record
  of every other key unchanged. The record of its own key is unchanged while its window is
  open; a record whose window has passed is reset in place, to count 0 and a window of one
  hour from now. A key without a record stays without one.
\<close>

theorem unaccepted_request_store:
  assumes "reachable s" and "fst (fst (POST req s)) \<noteq> accepted"
  shows "rateLimitStore (snd (POST req s)) = rateLimitStore s \<and>
         record_of (snd (POST req s)) k =
           (case record_of s k of
              None \<Rightarrow> None
            | Some r \<Rightarrow>
                if k = clientIP_of (clientAddress req) \<and> resetTime r < dateNow req
                then Some \<lparr>count = 0, resetTime = dateNow req + 3600000\<rparr>
                else Some r)"
proof (cases "k = clientIP_of (clientAddress req)")
  case True
  then show ?thesis
    using POST_own_key_unaccepted [OF assms(2)]
    by (simp add: atGate_def split: option.splits)
next
  case False
  then show ?thesis
    using POST_other_keys [OF reachable_separate [OF assms(1)] False]
      POST_own_key_unaccepted(2) [OF assms(2)]
    by (simp split: option.splits)
qed

theorem unaccepted_request_store_witness:
  "reachable (snd (POST (visit (Some ''203.0.113.7'') 1000 inquiry) init)) \<and>
   fst (fst (POST (visit (Some ''203.0.113.7'') 3601001 bait)
              (snd (POST (visit (Some ''203.0.113.7'') 1000 inquiry) init)))) \<noteq> accepted \<and>
   record_of (snd (POST (visit (Some ''203.0.113.7'') 3601001 bait)
              (snd (POST (visit (Some ''203.0.113.7'') 1000 inquiry) init)))) ''203.0.113.7'' =
     Some \<lparr>count = 0, resetTime = 7201001\<rparr>"
proof -
  have r: "reachable (snd (POST (visit (Some ''203.0.113.7'') 1000 inquiry) init))"
    by (rule reachable_POST [OF reachable_init])
  have n: "fst (fst (POST (visit (Some ''203.0.113.7'') 3601001 bait)
              (snd (POST (visit (Some ''203.0.113.7'') 1000 inquiry) init)))) \<noteq> accepted"
    by code_simp
  have b: "record_of (snd (POST (visit (Some ''203.0.113.7'') 1000 inquiry) init)) ''203.0.113.7'' =
             Some \<lparr>count = 1, resetTime = 3601000\<rparr>"
    by code_simp
  show ?thesis
    using r n b unaccepted_request_store [OF r n, of "''203.0.113.7''"]
    by (simp add: visit_def clientIP_of_def)
qed

text \<open>
  Claim C9 as stated fails: a request answered as spam changes the store when the record
  of its key has expired. After one accepted submission at time 1000 the record is
  \<open>{count: 1, resetTime: 3601000}\<close>; a submission with the honeypot filled at time
  3601001 is answered as spam and leaves \<open>{count: 0, resetTime: 7201001}\<close>.
\<close>

theorem spam_resets_expired_record:
  "fst (fst (POST (visit (Some ''203.0.113.7'') 3601001 bait)
              (snd (POST (visit (Some ''203.0.113.7'') 1000 inquiry) init)))) =
     jsonResponse 200 [(''success'', JBool True)] \<and>
   record_of (snd (POST (visit (Some ''203.0.113.7'') 1000 inquiry) init)) ''203.0.113.7'' =
     Some \<lparr>count = 1, resetTime = 3601000\<rparr> \<and>
   record_of (snd (POST (visit (Some ''203.0.113.7'') 3601001 bait)
              (snd (POST (visit (Some ''203.0.113.7'') 1000 inquiry) init)))) ''203.0.113.7'' =
     Some \<lparr>count = 0, resetTime = 7201001\<rparr>"
  by code_simp

subsection \<open>When the counter advances\<close>






subsection \<open>Spam\<close>

lemma includes_str_iff: "includes_str t k \<longleftrightarrow> (\<exists>p q. t = p @ k @ q)"
proof (induction t)
  case Nil
  show ?case by auto
next
  case (Cons c cs)
  show ?case
  proof
    assume "includes_str (c # cs) k"
    then consider "prefix k (c # cs)" | "includes_str cs k" by auto
    then show "\<exists>p q. c # cs = p @ k @ q"
    proof cases
      case 1
      then obtain q where "c # cs = k @ q" by (auto simp add: prefix_def)
      then have "c # cs = [] @ k @ q" by simp
      then show ?thesis by blast
    next
      case 2
      with Cons.IH obtain p q where "cs = p @ k @ q" by blast
      then have "c # cs = (c # p) @ k @ q" by simp
      then show ?thesis by blast
    qed
  next
    assume "\<exists>p q. c # cs = p @ k @ q"
    then obtain p q where pq: "c # cs = p @ k @ q" by blast
    show "includes_str (c # cs) k"
    proof (cases p)
      case Nil
      with pq have "prefix k (c # cs)" by (simp add: prefix_def)
      then show ?thesis by simp
    next
      case (Cons c' p')
      with pq have "cs = p' @ k @ q" by simp
      with Cons.IH have "includes_str cs k" by blast
      then show ?thesis by simp
    qed
  qed
qed

lemma checks_honeypot:
  "truthy (website d) \<Longrightarrow>
   checks k d = Some (jsonResponse 200 [(''success'', JBool True)],
                      [ConsoleLog [''Spam detected via honeypot:'', k]])"
  by (simp add: checks_def)

lemma checks_keywords:
  "\<not> truthy (website d) \<Longrightarrow> requiredPresent d \<Longrightarrow> emailRegex_test (toString (email d)) \<Longrightarrow>
   containsSpam d \<Longrightarrow>
   checks k d = Some (jsonResponse 200 [(''success'', JBool True)],
                      [ConsoleLog [''Spam detected via keywords:'', k]])"
  by (simp add: checks_def requiredPresent_def)

lemma POST_early:
  "\<not> rateLimited req s \<Longrightarrow> formData req = Some fd \<Longrightarrow>
   checks (clientIP_of (clientAddress req)) (parseForm fd) = Some e \<Longrightarrow>
   fst (POST req s) = e"
  by (simp add: POST_unfold Let_def)

text \<open>
  Claim C3. A submission that reaches the spam checks (the request passed the rate limit
  and its form was parsed) and is classified as spam is answered with status 200 and the
  body \<open>{success: true}\<close>, and \<open>fetch\<close> is not called. It is classified as spam when the
  honeypot field is filled, whatever the other fields hold, or when the required fields
  are present, the email is well-formed and one of the keywords occurs, in any mix of
  upper and lower case, in the text made of message, company, first name and last name.
\<close>

theorem spam_answered_as_success:
  assumes "\<not> rateLimited req s" and "formData req = Some fd" and "d = parseForm fd"
    and "truthy (website d) \<or>
         (requiredPresent d \<and> emailRegex_test (toString (email d)) \<and>
          (\<exists>keyword \<in> {''casino'', ''viagra'', ''porn'', ''gambling'', ''crypto mining''}.
             \<exists>p w q. toString (message d) @ '' '' @ orElse (company d) [] @ '' '' @
                        toString (firstName d) @ '' '' @ toString (lastName d) = p @ w @ q \<and>
                      toLowerCase w = keyword))"
  shows "fst (fst (POST req s)) = jsonResponse 200 [(''success'', JBool True)] \<and>
         (\<forall>url p. Fetch url p \<notin> set (snd (fst (POST req s))))"
proof (cases "truthy (website d)")
  case True
  then show ?thesis
    using POST_early [OF assms(1,2) checks_honeypot] assms(3) by simp
next
  case False
  with assms(4) obtain keyword p w q
    where req: "requiredPresent d" and em: "emailRegex_test (toString (email d))"
      and kw: "keyword \<in> set spamKeywords"
      and split: "toString (message d) @ '' '' @ orElse (company d) [] @ '' '' @
                    toString (firstName d) @ '' '' @ toString (lastName d) = p @ w @ q"
      and low: "toLowerCase w = keyword"
    by (auto simp add: spamKeywords_def)
  have "contentToCheck d = toLowerCase p @ keyword @ toLowerCase q"
    using split low by (simp add: contentToCheck_def toLowerCase_def)
  then have "includes_str (contentToCheck d) keyword"
    unfolding includes_str_iff by blast
  with kw have "containsSpam d"
    by (auto simp add: containsSpam_def list_ex_iff)
  then show ?thesis
    using POST_early [OF assms(1,2) checks_keywords] False req em assms(3) by simp
qed

theorem spam_answered_as_success_witness:
  "\<not> rateLimited (visit (Some ''203.0.113.7'') 1000 pitch) init \<and>
   formData (visit (Some ''203.0.113.7'') 1000 pitch) = Some pitch \<and>
   toString (message (parseForm pitch)) = ''Buy VIAGRA now'' \<and>
   toLowerCase ''VIAGRA'' = ''viagra'' \<and>
   fst (fst (POST (visit (Some ''203.0.113.7'') 1000 pitch) init)) =
     jsonResponse 200 [(''success'', JBool True)] \<and>
   (\<forall>url p. Fetch url p \<notin> set (snd (fst (POST (visit (Some ''203.0.113.7'') 1000 pitch) init))))"
proof -
  have h1: "\<not> rateLimited (visit (Some ''203.0.113.7'') 1000 pitch) init"
    by (simp add: rateLimited_def record_of_def init_def)
  have h2: "formData (visit (Some ''203.0.113.7'') 1000 pitch) = Some pitch"
    by (simp add: visit_def)
  have m: "toString (message (parseForm pitch)) = ''Buy VIAGRA now''"
    by code_simp
  have low: "toLowerCase ''VIAGRA'' = ''viagra''"
    by code_simp
  have whole: "toString (message (parseForm pitch)) @ '' '' @ orElse (company (parseForm pitch)) [] @
          '' '' @ toString (firstName (parseForm pitch)) @ '' '' @
          toString (lastName (parseForm pitch)) = ''Buy '' @ ''VIAGRA'' @ '' now  Asha Patel''"
    by code_simp
  have rq: "requiredPresent (parseForm pitch)"
    by code_simp
  have em: "emailRegex_test (toString (email (parseForm pitch)))"
    by code_simp
  have h4: "truthy (website (parseForm pitch)) \<or>
         (requiredPresent (parseForm pitch) \<and> emailRegex_test (toString (email (parseForm pitch))) \<and>
          (\<exists>keyword \<in> {''casino'', ''viagra'', ''porn'', ''gambling'', ''crypto mining''}.
             \<exists>p w q. toString (message (parseForm pitch)) @ '' '' @
                        orElse (company (parseForm pitch)) [] @ '' '' @
                        toString (firstName (parseForm pitch)) @ '' '' @
                        toString (lastName (parseForm pitch)) = p @ w @ q \<and>
                      toLowerCase w = keyword))"
    using rq em whole low by blast
  show ?thesis
    using h1 h2 m low spam_answered_as_success [OF h1 h2 refl h4] by simp
qed

text \<open>
  Claim C4 fails on the code. The same inquiry is sent once with the honeypot filled and
  once with it empty, in the same state. Both answers have status 200 and
  \<open>success: true\<close>, but only the accepted one carries the field \<open>message\<close>: the two
  responses differ, so the sender can tell that the submission was dropped.
\<close>

theorem spam_reply_differs_from_accepted:
  "fst (fst (POST (visit (Some ''203.0.113.7'') 1000 bait) init)) =
     jsonResponse 200 [(''success'', JBool True)] \<and>
   fst (fst (POST (visit (Some ''203.0.113.7'') 1000 unbaited) init)) =
     jsonResponse 200
       [(''success'', JBool True),
        (''message'', JString
           ''Your message has been sent successfully. We'll get back to you within 24 hours.'')] \<and>
   json (fst (fst (POST (visit (Some ''203.0.113.7'') 1000 bait) init))) \<noteq>
   json (fst (fst (POST (visit (Some ''203.0.113.7'') 1000 unbaited) init)))"
  by code_simp

subsection \<open>Attachments\<close>

lemma checks_file:
  "\<not> truthy (website d) \<Longrightarrow> requiredPresent d \<Longrightarrow> emailRegex_test (toString (email d)) \<Longrightarrow>
   \<not> containsSpam d \<Longrightarrow>
   checks k d = (case fileValidation (attachment d) of Some r \<Rightarrow> Some (r, []) | None \<Rightarrow> None)"
  by (simp add: checks_def requiredPresent_def)

lemma POST_passed:
  "\<not> rateLimited req s \<Longrightarrow> formData req = Some fd \<Longrightarrow>
   checks (clientIP_of (clientAddress req)) (parseForm fd) = None \<Longrightarrow>
   fst (fst (POST req s)) = accepted"
  by (simp add: POST_unfold Let_def)

text \<open>
  Claim C5, as amended. For a submission that reaches file validation (it passed the rate
  limit, parsed, and is valid and not spam) with a file attached whose size is not zero:
  a declared type outside the allowed list is rejected with 400 and the invalid-file-type
  error, whatever the size; a file of an allowed type and of more than 10 * 1024 * 1024
  bytes is rejected with 400 and the file-too-large error; every file of more than that
  size is rejected with 400; a file of an allowed type and of at most that size is
  accepted. A submission without a file, or with a file of size zero, is accepted.
\<close>

theorem attachment_policy:
  assumes "\<not> rateLimited req s" and "formData req = Some fd" and "d = parseForm fd"
    and "\<not> truthy (website d)" and "requiredPresent d"
    and "emailRegex_test (toString (email d))" and "\<not> containsSpam d"
  shows "(attachment d = Some (Blob f) \<and> 0 < file_size f \<and> file_type f \<notin> set allowedTypes \<longrightarrow>
            fst (fst (POST req s)) = jsonResponse 400
              [(''success'', JBool False),
               (''error'', JString ''Invalid file type. Only PDF, DOC, DOCX, XLS, XLSX, ZIP allowed.'')]) \<and>
         (attachment d = Some (Blob f) \<and> file_type f \<in> set allowedTypes \<and>
          10 * 1024 * 1024 < file_size f \<longrightarrow>
            fst (fst (POST req s)) = jsonResponse 400
              [(''success'', JBool False),
               (''error'', JString ''File too large. Maximum size is 10MB.'')]) \<and>
         (attachment d = Some (Blob f) \<and> 10 * 1024 * 1024 < file_size f \<longrightarrow>
            status (fst (fst (POST req s))) = 400) \<and>
         (attachment d = Some (Blob f) \<and> file_type f \<in> set allowedTypes \<and>
          file_size f \<le> 10 * 1024 * 1024 \<longrightarrow>
            fst (fst (POST req s)) = accepted) \<and>
         (attachment d = None \<or> (attachment d = Some (Blob f) \<and> file_size f = 0) \<longrightarrow>
            fst (fst (POST req s)) = accepted)"
proof -
  define k where "k = clientIP_of (clientAddress req)"
  have c: "checks k (parseForm fd) =
             (case fileValidation (attachment d) of Some r \<Rightarrow> Some (r, []) | None \<Rightarrow> None)"
    using checks_file [OF assms(4-7)] assms(3) by simp
  have rejected: "fileValidation (attachment d) = Some r \<Longrightarrow> fst (fst (POST req s)) = r" for r
    using POST_early [OF assms(1,2), of "(r, [])"] c by (simp add: k_def)
  have passed: "fileValidation (attachment d) = None \<Longrightarrow> fst (fst (POST req s)) = accepted"
    using POST_passed [OF assms(1,2)] c by (simp add: k_def)
  have one: "fst (fst (POST req s)) = jsonResponse 400
              [(''success'', JBool False),
               (''error'', JString ''Invalid file type. Only PDF, DOC, DOCX, XLS, XLSX, ZIP allowed.'')]"
    if "attachment d = Some (Blob f)" "0 < file_size f" "file_type f \<notin> set allowedTypes"
    using that by (intro rejected) simp
  have two: "fst (fst (POST req s)) = jsonResponse 400
              [(''success'', JBool False),
               (''error'', JString ''File too large. Maximum size is 10MB.'')]"
    if "attachment d = Some (Blob f)" "file_type f \<in> set allowedTypes" "10 * 1024 * 1024 < file_size f"
    using that by (intro rejected) simp
  have three: "status (fst (fst (POST req s))) = 400"
    if "attachment d = Some (Blob f)" "10 * 1024 * 1024 < file_size f"
  proof (cases "file_type f \<in> set allowedTypes")
    case True
    with two that show ?thesis by (simp add: jsonResponse_def)
  next
    case False
    with one that show ?thesis by (simp add: jsonResponse_def)
  qed
  have four: "fst (fst (POST req s)) = accepted"
    if "attachment d = Some (Blob f)" "file_type f \<in> set allowedTypes"
       "file_size f \<le> 10 * 1024 * 1024"
    using that by (intro passed) simp
  have five: "fst (fst (POST req s)) = accepted"
    if "attachment d = None \<or> (attachment d = Some (Blob f) \<and> file_size f = 0)"
    using that by (intro passed) auto
  show ?thesis using one two three four five by blast
qed

text \<open>The sample inquiry with a file attached, up to file validation.\<close>

lemma parseForm_attaching:
  "parseForm (attaching f) = (parseForm inquiry)\<lparr>attachment := Some (Blob f)\<rparr>"
  by (simp add: parseForm_def attaching_def inquiry_def)

lemma containsSpam_attachment:
  "containsSpam (d\<lparr>attachment := x\<rparr>) = containsSpam d"
  by (simp add: containsSpam_def contentToCheck_def)

lemma inquiry_passes:
  "\<not> truthy (website (parseForm inquiry))" "requiredPresent (parseForm inquiry)"
  "emailRegex_test (toString (email (parseForm inquiry)))" "\<not> containsSpam (parseForm inquiry)"
  by code_simp+

lemma attaching_passes:
  "\<not> truthy (website (parseForm (attaching f)))" "requiredPresent (parseForm (attaching f))"
  "emailRegex_test (toString (email (parseForm (attaching f))))"
  "\<not> containsSpam (parseForm (attaching f))"
  "attachment (parseForm (attaching f)) = Some (Blob f)"
  using inquiry_passes
  by (simp_all add: parseForm_attaching containsSpam_attachment requiredPresent_def)

lemma fresh_not_limited: "\<not> rateLimited req init"
  by (simp add: rateLimited_def record_of_def init_def)

theorem attachment_policy_witness:
  "\<not> rateLimited (visit (Some ''203.0.113.7'') 1000
        (attaching \<lparr>file_size = 5 * 1024 * 1024, file_type = ''application/pdf''\<rparr>)) init \<and>
   attachment (parseForm (attaching \<lparr>file_size = 5 * 1024 * 1024, file_type = ''application/pdf''\<rparr>)) =
     Some (Blob \<lparr>file_size = 5 * 1024 * 1024, file_type = ''application/pdf''\<rparr>) \<and>
   fst (fst (POST (visit (Some ''203.0.113.7'') 1000
        (attaching \<lparr>file_size = 5 * 1024 * 1024, file_type = ''application/pdf''\<rparr>)) init)) = accepted"
proof -
  define f where "f = \<lparr>file_size = 5 * 1024 * 1024, file_type = ''application/pdf''\<rparr>"
  have h1: "\<not> rateLimited (visit (Some ''203.0.113.7'') 1000 (attaching f)) init"
    by (rule fresh_not_limited)
  have h2: "formData (visit (Some ''203.0.113.7'') 1000 (attaching f)) = Some (attaching f)"
    by (simp add: visit_def)
  have t: "file_type f \<in> set allowedTypes"
    by (simp add: f_def allowedTypes_def)
  have z: "file_size f \<le> 10 * 1024 * 1024"
    by (simp add: f_def)
  note ap = attaching_passes [of f]
  show ?thesis
    using h1 ap(5) t z attachment_policy [OF h1 h2 refl ap(1-4), where f = f]
    unfolding f_def by simp
qed

text \<open>
  Claim C5 as stated fails where it promises the file-too-large error for every file of
  more than 10 MiB: a file of 11 MiB declared as \<open>image/png\<close> is rejected with 400 and the
  invalid-file-type error, because the type is checked before the size.
\<close>

theorem oversized_image_reported_as_invalid_type:
  "fst (fst (POST (visit (Some ''203.0.113.7'') 1000
        (attaching \<lparr>file_size = 11 * 1024 * 1024, file_type = ''image/png''\<rparr>)) init)) =
     jsonResponse 400
       [(''success'', JBool False),
        (''error'', JString ''Invalid file type. Only PDF, DOC, DOCX, XLS, XLSX, ZIP allowed.'')] \<and>
   fst (fst (POST (visit (Some ''203.0.113.7'') 1000
        (attaching \<lparr>file_size = 11 * 1024 * 1024, file_type = ''image/png''\<rparr>)) init)) \<noteq>
     jsonResponse 400
       [(''success'', JBool False),
        (''error'', JString ''File too large. Maximum size is 10MB.'')]"
proof -
  define f where "f = \<lparr>file_size = 11 * 1024 * 1024, file_type = ''image/png''\<rparr>"
  note ap = attaching_passes [of f]
  have v: "fileValidation (attachment (parseForm (attaching f))) =
             Some (jsonResponse 400
               [(''success'', JBool False),
                (''error'', JString ''Invalid file type. Only PDF, DOC, DOCX, XLS, XLSX, ZIP allowed.'')])"
    by (simp add: attaching_passes(5) f_def allowedTypes_def)
  have c: "checks ''203.0.113.7'' (parseForm (attaching f)) =
             Some (jsonResponse 400
               [(''success'', JBool False),
                (''error'', JString ''Invalid file type. Only PDF, DOC, DOCX, XLS, XLSX, ZIP allowed.'')], [])"
    using checks_file [OF ap(1-4), where k = "''203.0.113.7''"] v by simp
  have "fst (POST (visit (Some ''203.0.113.7'') 1000 (attaching f)) init) =
          (jsonResponse 400
               [(''success'', JBool False),
                (''error'', JString ''Invalid file type. Only PDF, DOC, DOCX, XLS, XLSX, ZIP allowed.'')], [])"
    using c POST_early [OF fresh_not_limited,
        of "visit (Some ''203.0.113.7'') 1000 (attaching f)" "attaching f"]
    by (simp add: visit_def clientIP_of_def)
  then show ?thesis
    unfolding f_def by (simp add: jsonResponse_def)
qed

subsection \<open>Required fields\<close>

lemma checks_missing_iff:
  assumes "\<not> truthy (website d)"
  shows "checks k d =
           Some (jsonResponse 400
                   [(''success'', JBool False), (''error'', JString ''Missing required fields'')], [])
         \<longleftrightarrow> \<not> requiredPresent d"
proof (cases "requiredPresent d")
  case False
  with assms show ?thesis by (auto simp add: checks_def requiredPresent_def)
next
  case True
  have "fileValidation a \<noteq>
          Some (jsonResponse 400
                  [(''success'', JBool False), (''error'', JString ''Missing required fields'')])" for a
    by (cases a rule: fileValidation.cases) (simp_all add: jsonResponse_def)
  with True assms show ?thesis
    by (auto simp add: checks_def requiredPresent_def jsonResponse_def split: option.splits)
qed

lemma truthy_iff: "truthy x \<longleftrightarrow> x \<noteq> None \<and> x \<noteq> Some (Text [])"
  by (cases x rule: truthy.cases) simp_all

text \<open>
  Claim C6, as amended. For a submission that reaches validation (it passed the rate
  limit, its form parsed, and its honeypot is empty) the answer is 400 with the error
  "Missing required fields" exactly when one of service, message, first name, last name
  and email is absent or the empty string. The fields are not trimmed: a field that is not
  empty counts as present, also when it holds only whitespace, and such a submission is
  never answered with that error.
\<close>

theorem missing_required_fields:
  assumes "\<not> rateLimited req s" and "formData req = Some fd" and "d = parseForm fd"
    and "\<not> truthy (website d)"
  shows "fst (fst (POST req s)) =
           jsonResponse 400
             [(''success'', JBool False), (''error'', JString ''Missing required fields'')]
         \<longleftrightarrow>
         (\<exists>x \<in> {service d, message d, firstName d, lastName d, email d}.
            x = None \<or> x = Some (Text []))"
proof -
  define k where "k = clientIP_of (clientAddress req)"
  define missing where
    "missing = jsonResponse 400
       [(''success'', JBool False), (''error'', JString ''Missing required fields'')]"
  have absent: "(\<exists>x \<in> {service d, message d, firstName d, lastName d, email d}.
            x = None \<or> x = Some (Text [])) \<longleftrightarrow> \<not> requiredPresent d"
    by (auto simp add: requiredPresent_def truthy_iff)
  have early: "checks k d = Some e \<Longrightarrow> fst (POST req s) = e" for e
    using POST_early [OF assms(1,2), of e] assms(3) by (simp add: k_def)
  have passed: "checks k d = None \<Longrightarrow> fst (fst (POST req s)) = accepted"
    using POST_passed [OF assms(1,2)] assms(3) by (simp add: k_def)
  have eff: "checks k d = Some (r, es) \<Longrightarrow> r = missing \<Longrightarrow> es = []" for r es
    unfolding missing_def
    by (auto simp add: checks_def jsonResponse_def split: if_splits option.splits)
  have "fst (fst (POST req s)) = missing \<longleftrightarrow> checks k d = Some (missing, [])"
  proof (cases "checks k d")
    case None
    with passed show ?thesis by (simp add: missing_def accepted_def jsonResponse_def)
  next
    case (Some e)
    with early [OF Some] eff [of "fst e" "snd e"] show ?thesis by (cases e) auto
  qed
  with checks_missing_iff [OF assms(4), of k] absent show ?thesis
    unfolding missing_def by simp
qed

theorem missing_required_fields_witness:
  "\<not> rateLimited (visit (Some ''203.0.113.7'') 1000 noService) init \<and>
   formData (visit (Some ''203.0.113.7'') 1000 noService) = Some noService \<and>
   \<not> truthy (website (parseForm noService)) \<and>
   service (parseForm noService) = Some (Text []) \<and>
   fst (fst (POST (visit (Some ''203.0.113.7'') 1000 noService) init)) =
     jsonResponse 400
       [(''success'', JBool False), (''error'', JString ''Missing required fields'')]"
proof -
  have h1: "\<not> rateLimited (visit (Some ''203.0.113.7'') 1000 noService) init"
    by (rule fresh_not_limited)
  have h2: "formData (visit (Some ''203.0.113.7'') 1000 noService) = Some noService"
    by (simp add: visit_def)
  have h4: "\<not> truthy (website (parseForm noService))"
    by code_simp
  have h5: "service (parseForm noService) = Some (Text [])"
    by code_simp
  have h6: "\<exists>x \<in> {service (parseForm noService), message (parseForm noService),
               firstName (parseForm noService), lastName (parseForm noService),
               email (parseForm noService)}. x = None \<or> x = Some (Text [])"
    using h5 by blast
  show ?thesis
    using h1 h2 h4 h5 iffD2 [OF missing_required_fields [OF h1 h2 refl h4] h6]
    by simp
qed

text \<open>
  Claim C6 as stated fails for a required field that holds only whitespace: a submission
  whose service is a single blank is not rejected as missing, it is accepted.
\<close>

theorem blank_service_accepted:
  "service (parseForm blankService) = Some (Text '' '') \<and>
   fst (fst (POST (visit (Some ''203.0.113.7'') 1000 blankService) init)) = accepted \<and>
   status (fst (fst (POST (visit (Some ''203.0.113.7'') 1000 blankService) init))) = 200"
  by code_simp

subsection \<open>Failure of the webhook\<close>

lemma dispatch_calls_fetch:
  "webhookUrl req = Some url \<Longrightarrow> url \<noteq> [] \<Longrightarrow> \<exists>p. Fetch url p \<in> set (dispatch req k d)"
  by (cases url) (auto simp add: dispatch_def)

lemma POST_effects_accepted:
  "\<not> rateLimited req s \<Longrightarrow> wellFormed req \<Longrightarrow> formData req = Some fd \<Longrightarrow>
   snd (fst (POST req s)) = dispatch req (clientIP_of (clientAddress req)) (parseForm fd)"
  using checks_None [of "clientIP_of (clientAddress req)" "parseForm fd"]
  by (simp add: POST_unfold Let_def wellFormed_def)

text \<open>
  Claim C7. For a valid submission that is not spam and passes the rate limit, with a
  webhook URL configured, \<open>fetch\<close> is called, and whatever it does (it throws, or it
  resolves to a response of any status, 2xx or not) the answer is 200 with
  \<open>success: true\<close> and the confirmation message, and the state after the call is the
  same.
\<close>

theorem webhook_failure_not_surfaced:
  assumes "\<not> rateLimited req s" and "wellFormed req"
    and "webhookUrl req = Some url" and "url \<noteq> []"
  shows "fst (fst (POST (req\<lparr>fetchOutcome := out\<rparr>) s)) =
           jsonResponse 200
             [(''success'', JBool True),
              (''message'', JString
                 ''Your message has been sent successfully. We'll get back to you within 24 hours.'')] \<and>
         (\<exists>p. Fetch url p \<in> set (snd (fst (POST (req\<lparr>fetchOutcome := out\<rparr>) s)))) \<and>
         snd (POST (req\<lparr>fetchOutcome := out\<rparr>) s) = snd (POST req s)"
proof -
  have nl: "\<not> rateLimited (req\<lparr>fetchOutcome := out\<rparr>) s"
    using assms(1) by (auto simp add: rateLimited_def split: option.splits)
  have wf: "wellFormed (req\<lparr>fetchOutcome := out\<rparr>)"
    using assms(2) by (auto simp add: wellFormed_def split: option.splits)
  from assms(2) obtain fd where fd: "formData req = Some fd"
    by (auto simp add: wellFormed_def split: option.splits)
  have one: "fst (fst (POST (req\<lparr>fetchOutcome := out\<rparr>) s)) = accepted"
    using nl wf by (simp add: POST_response_accepted)
  have two: "\<exists>p. Fetch url p \<in> set (snd (fst (POST (req\<lparr>fetchOutcome := out\<rparr>) s)))"
    using POST_effects_accepted [OF nl wf, of fd] fd
      dispatch_calls_fetch [of "req\<lparr>fetchOutcome := out\<rparr>" url] assms(3,4)
    by simp
  have three: "snd (POST (req\<lparr>fetchOutcome := out\<rparr>) s) = snd (POST req s)"
    using nl wf assms(1,2) by (simp add: POST_state Let_def)
  show ?thesis using one two three by (simp add: accepted_def)
qed

theorem webhook_failure_not_surfaced_witness:
  "\<not> rateLimited (hooked (HttpStatus 200)) init \<and> wellFormed (hooked (HttpStatus 200)) \<and>
   webhookUrl (hooked (HttpStatus 200)) = Some ''https://hooks.example/contact'' \<and>
   fst (fst (POST (hooked NetworkError) init)) = accepted \<and>
   fst (fst (POST (hooked (HttpStatus 503)) init)) = accepted"
proof -
  have h1: "\<not> rateLimited (hooked (HttpStatus 200)) init"
    by (rule fresh_not_limited)
  have h2: "wellFormed (hooked (HttpStatus 200))"
    by code_simp
  have h3: "webhookUrl (hooked (HttpStatus 200)) = Some ''https://hooks.example/contact''"
    by (simp add: hooked_def)
  have h4: "''https://hooks.example/contact'' \<noteq> []"
    by simp
  have u: "(hooked (HttpStatus 200))\<lparr>fetchOutcome := out\<rparr> = hooked out" for out
    by (simp add: hooked_def)
  show ?thesis
    using h1 h2 h3
      webhook_failure_not_surfaced [OF h1 h2 h3 h4, of NetworkError]
      webhook_failure_not_surfaced [OF h1 h2 h3 h4, of "HttpStatus 503"]
    by (simp add: u accepted_def)
qed

subsection \<open>Calls that overlap\<close>

text \<open>
  Claim C8 fails on the code. The gate reads the count before the call suspends and
  "Update rate limit" increments it after the call is resumed. Four submissions of one
  client are accepted one after the other and leave count 4; three more arrive before any
  of them is resumed, so each finds count 4 at its gate, each is accepted, and the record
  of the store is left with count 7.
\<close>

theorem overlapping_calls_exceed_threshold:
  "reachable (fst (snd (run threeAtOnceAfterFour (init, [])))) \<and>
   record_of (fst (snd (run threeAtOnceAfterFour (init, [])))) ''203.0.113.7'' =
     Some \<lparr>count = 7, resetTime = 3601000\<rparr> \<and>
   map (map_option fst) (drop 11 (fst (run threeAtOnceAfterFour (init, [])))) =
     [Some accepted, Some accepted, Some accepted]"
proof -
  have "record_of (fst (snd (run threeAtOnceAfterFour (init, [])))) ''203.0.113.7'' =
          Some \<lparr>count = 7, resetTime = 3601000\<rparr>"
    by code_simp
  moreover
  have "map (map_option fst) (drop 11 (fst (run threeAtOnceAfterFour (init, [])))) =
          [Some accepted, Some accepted, Some accepted]"
    by code_simp
  ultimately show ?thesis
    using reachable_run [of threeAtOnceAfterFour] by simp
qed

text \<open>
  Claim C1 fails on the code. Six valid submissions of one client that has no record
  arrive inside one hour, before any of them is resumed. Each finds no record at its gate
  and takes a new object with count 0, so all six are answered 200 with the confirmation:
  the sixth is not answered 429. Each call stores its own object, and the store is left
  with count 1.
\<close>

theorem sixth_overlapping_submission_accepted:
  "map (map_option fst) (fst (run sixAtOnce (init, []))) =
     [None, None, None, None, None, None,
      Some accepted, Some accepted, Some accepted, Some accepted, Some accepted, Some accepted] \<and>
   record_of (fst (snd (run sixAtOnce (init, [])))) ''203.0.113.7'' =
     Some \<lparr>count = 1, resetTime = 3606000\<rparr>"
  by code_simp

text \<open>
  Claim C10 fails on the code. A request without a client address, or with an empty one,
  is counted under the key \<open>unknown\<close>. Five such submissions arrive before any of them
  is resumed and all five are accepted; they leave the record of \<open>unknown\<close> with count
  1, so a sixth request without an address, sent inside the same hour after the five have
  returned, is accepted and not answered 429.
\<close>

theorem unknown_bucket_not_full_after_five_accepted:
  "clientIP_of None = ''unknown'' \<and> clientIP_of (Some []) = ''unknown'' \<and>
   map (map_option fst) (fst (run sixthAfterFiveAtOnce (init, []))) =
     [None, None, None, None, None,
      Some accepted, Some accepted, Some accepted, Some accepted, Some accepted,
      None, Some accepted] \<and>
   record_of (fst (snd (run sixthAfterFiveAtOnce (init, [])))) ''unknown'' =
     Some \<lparr>count = 2, resetTime = 3605000\<rparr>"
  by code_simp

end
